theory Spec2Isabelle
  imports Complex_Main
begin

section \<open>Data model of SimpleGameEngine\<close>

text \<open>
  The engine is the JavaScript class \<open>SimpleGameEngine\<close>. Its numbers are modelled as
  \<^typ>\<open>real\<close>: arithmetic is exact, and the special values of IEEE doubles (NaN, the
  infinities) and rounding are outside the model. Every concrete input below uses small
  integers, on which doubles compute exactly what the reals do.

  A rectangle is anything with the four fields \<open>x\<close>, \<open>y\<close>, \<open>width\<close>, \<open>height\<close>; the
  source passes both game objects and the ad-hoc \<open>feet\<close> probe to \<open>isColliding\<close>, so
  game objects extend the rectangle record.
\<close>

record rect =
  x :: real
  y :: real
  width :: real
  height :: real

datatype direction = Left | Right | Top | Bottom

record collision_data =
  overlapX :: real
  overlapY :: real
  direction :: direction

text \<open>
  Values handed to callbacks. A game object is passed by reference: \<open>ObjRef i\<close> is the
  object at position \<open>i\<close> of \<open>gameObjects\<close>. \<open>CollisionEvent i j d\<close> is the object literal
  \<open>{obj1, obj2, ...collisionData}\<close>. Objects are identified by their position:
  \<open>createGameObject\<close> pushes a fresh object each time, so no object occurs twice.
\<close>

datatype js_value =
    ObjRef nat
  | CollisionData collision_data
  | CollisionEvent nat nat collision_data
  | Opaque string

text \<open>
  A callback is client code. The model keeps its name and whether a call with given
  arguments raises an exception; the engine never catches one. Every invocation is
  recorded. What else the callback's body does is not part of the engine.
\<close>

datatype callback = Callback (cb_name: string) (cb_raises: "js_value list \<Rightarrow> bool")

text \<open>
  The object literal built by \<open>createGameObject\<close>. \<open>element\<close> (the DOM node) is left out:
  the engine only writes style strings to it. \<open>isPlatform\<close> is read by \<open>isOnGround\<close> but
  never written by the engine; an absent property reads as falsy.
\<close>

record game_object = rect +
  obj_id :: string
  velocityX :: real
  velocityY :: real
  autoMove :: "(real \<times> real) option"
  isStatic :: bool
  isPlayerControlled :: bool
  requireGround :: bool
  tag :: string
  onCollision :: "callback option"
  isPlatform :: bool

text \<open>
  What can be raised: the TypeError of a call of \<open>undefined\<close>, and whatever a callback
  throws. A method either returns, leaving a state, or raises, leaving the state reached
  by the writes made before: \<open>Inr s\<close> and \<open>Inl (e, s)\<close>.
\<close>

datatype error = TypeError | Thrown callback

text \<open>
  The engine state. \<open>eventListeners\<close> holds the own properties of the object created by
  \<open>{}\<close>. \<open>timers\<close> are the pending \<open>setTimeout\<close> tasks (delay, event, payload).
  \<open>invoked\<close> is the history of callback invocations (callback, argument list) and
  \<open>published\<close> the history of calls of \<open>emit\<close> (event, payload); both are
  instrumentation, in call order. The fields \<open>container\<close>, \<open>width\<close>, \<open>height\<close>,
  \<open>collisionPairs\<close> and \<open>lastTime\<close> are not used by the methods modelled here.
\<close>

record engine =
  gameObjects :: "game_object list"
  eventListeners :: "string \<rightharpoonup> callback list"
  timers :: "(real \<times> string \<times> js_value) list"
  invoked :: "(callback \<times> js_value list) list"
  published :: "(string \<times> js_value) list"

type_synonym outcome = "(error \<times> engine) + engine"

text \<open>The state a call leaves, whether it returned or raised.\<close>

definition final :: "outcome \<Rightarrow> engine" where
  "final r = (case r of Inr s \<Rightarrow> s | Inl (e, s) \<Rightarrow> s)"

text \<open>Sequencing: the rest runs only when the first part returned.\<close>

definition and_then :: "outcome \<Rightarrow> (engine \<Rightarrow> outcome) \<Rightarrow> outcome" where
  "and_then r f = (case r of Inr s \<Rightarrow> f s | Inl (e, s) \<Rightarrow> Inl (e, s))"

text \<open>A loop whose body may raise: the first exception ends it.\<close>

fun forEach :: "('a \<Rightarrow> engine \<Rightarrow> outcome) \<Rightarrow> 'a list \<Rightarrow> engine \<Rightarrow> outcome" where
  "forEach f [] s = Inr s"
| "forEach f (a # as) s = and_then (f a s) (forEach f as)"

text \<open>
  A call \<open>cb(args)\<close> of a callback: the invocation is recorded, and the call raises when
  the callback does.
\<close>

definition invoke :: "callback \<Rightarrow> js_value list \<Rightarrow> engine \<Rightarrow> outcome" where
  "invoke cb args s =
     (let s1 = s\<lparr>invoked := invoked s @ [(cb, args)]\<rparr>
      in if cb_raises cb args then Inl (Thrown cb, s1) else Inr s1)"

section \<open>Object creation\<close>

text \<open>
  The \<open>options\<close> argument: every field may be absent. \<open>a || d\<close> yields \<open>d\<close> when \<open>a\<close> is
  absent or falsy (the number 0, the empty string, \<open>false\<close>).
\<close>

record options =
  opt_x :: "real option"
  opt_y :: "real option"
  opt_width :: "real option"
  opt_height :: "real option"
  opt_autoMove :: "(real \<times> real) option"
  opt_isStatic :: "bool option"
  opt_isPlayerControlled :: "bool option"
  opt_requireGround :: "bool option"
  opt_tag :: "string option"
  opt_onCollision :: "callback option"

definition or_num :: "real option \<Rightarrow> real \<Rightarrow> real" where
  "or_num a d = (case a of Some v \<Rightarrow> (if v \<noteq> 0 then v else d) | None \<Rightarrow> d)"

definition or_bool :: "bool option \<Rightarrow> bool \<Rightarrow> bool" where
  "or_bool a d = (case a of Some v \<Rightarrow> (if v then v else d) | None \<Rightarrow> d)"

definition or_str :: "string option \<Rightarrow> string \<Rightarrow> string" where
  "or_str a d = (case a of Some v \<Rightarrow> (if v \<noteq> [] then v else d) | None \<Rightarrow> d)"

text \<open>
  \<open>createGameObject\<close>. \<open>offsetWidth\<close> and \<open>offsetHeight\<close> are what the DOM reports for the
  element. The result is the new object and the engine with the object pushed; a
  player-controlled object schedules the \<open>playerCreated\<close> event after 1000 ms.
\<close>

definition createGameObject ::
  "string \<Rightarrow> options \<Rightarrow> real \<Rightarrow> real \<Rightarrow> engine \<Rightarrow> game_object \<times> engine" where
  "createGameObject elementId opts offsetWidth offsetHeight s =
     (let gameObject =
            \<lparr> x = or_num (opt_x opts) 0,
              y = or_num (opt_y opts) 0,
              width = or_num (opt_width opts) offsetWidth,
              height = or_num (opt_height opts) offsetHeight,
              obj_id = elementId,
              velocityX = 0,
              velocityY = 0,
              autoMove = opt_autoMove opts,
              isStatic = or_bool (opt_isStatic opts) False,
              isPlayerControlled = or_bool (opt_isPlayerControlled opts) False,
              requireGround = or_bool (opt_requireGround opts) False,
              tag = or_str (opt_tag opts) [],
              onCollision = opt_onCollision opts,
              isPlatform = False \<rparr>;
          s1 = s\<lparr>gameObjects := gameObjects s @ [gameObject]\<rparr>;
          s2 = (if isPlayerControlled gameObject
                then s1\<lparr>timers := timers s1 @
                        [(1000, ''playerCreated'', ObjRef (length (gameObjects s)))]\<rparr>
                else s1)
      in (gameObject, s2))"

section \<open>Event system\<close>

text \<open>
  \<open>this.eventListeners\<close> is a plain object, so \<open>this.eventListeners[event]\<close> finds an own
  property first and otherwise a property inherited from \<open>Object.prototype\<close>. The
  inherited properties (ECMAScript, with Annex B) are functions or objects: truthy, and
  without \<open>push\<close> or \<open>forEach\<close>, so calling either raises a TypeError.
\<close>

definition object_prototype_keys :: "string list" where
  "object_prototype_keys =
     [''constructor'', ''hasOwnProperty'', ''isPrototypeOf'', ''propertyIsEnumerable'',
      ''toLocaleString'', ''toString'', ''valueOf'', ''__proto__'',
      ''__defineGetter__'', ''__defineSetter__'', ''__lookupGetter__'',
      ''__lookupSetter__'']"

datatype js_lookup = JSUndefined | JSArray "callback list" | JSInherited

definition lookup_listeners :: "engine \<Rightarrow> string \<Rightarrow> js_lookup" where
  "lookup_listeners s event =
     (case eventListeners s event of
        Some l \<Rightarrow> JSArray l
      | None \<Rightarrow> (if event \<in> set object_prototype_keys then JSInherited else JSUndefined))"

definition on :: "string \<Rightarrow> callback \<Rightarrow> engine \<Rightarrow> outcome" where
  "on event cb s =
     (case lookup_listeners s event of
        JSUndefined \<Rightarrow> Inr (s\<lparr>eventListeners := (eventListeners s)(event \<mapsto> [] @ [cb])\<rparr>)
      | JSArray l \<Rightarrow> Inr (s\<lparr>eventListeners := (eventListeners s)(event \<mapsto> l @ [cb])\<rparr>)
      | JSInherited \<Rightarrow> Inl (TypeError, s))"

text \<open>
  \<open>emit\<close> runs the listeners in order, \<open>listeners.forEach(callback => callback(data))\<close>,
  with no \<open>try\<close>: a listener that raises ends the loop and the exception passes to the
  caller of \<open>emit\<close>.
\<close>

definition emit :: "string \<Rightarrow> js_value \<Rightarrow> engine \<Rightarrow> outcome" where
  "emit event data s =
     (let s1 = s\<lparr>published := published s @ [(event, data)]\<rparr>
      in case lookup_listeners s event of
           JSUndefined \<Rightarrow> Inr s1
         | JSArray l \<Rightarrow> forEach (\<lambda>callback. invoke callback [data]) l s1
         | JSInherited \<Rightarrow> Inl (TypeError, s1))"

section \<open>Collision geometry\<close>

definition isColliding :: "'a rect_scheme \<Rightarrow> 'b rect_scheme \<Rightarrow> bool" where
  "isColliding obj1 obj2 \<longleftrightarrow>
     x obj1 < x obj2 + width obj2 \<and>
     x obj1 + width obj1 > x obj2 \<and>
     y obj1 < y obj2 + height obj2 \<and>
     y obj1 + height obj1 > y obj2"

definition getCollisionData :: "'a rect_scheme \<Rightarrow> 'b rect_scheme \<Rightarrow> collision_data" where
  "getCollisionData obj1 obj2 =
     (let ox = min (x obj1 + width obj1 - x obj2) (x obj2 + width obj2 - x obj1);
          oy = min (y obj1 + height obj1 - y obj2) (y obj2 + height obj2 - y obj1);
          d = (if ox < oy then (if x obj1 < x obj2 then Left else Right)
               else (if y obj1 < y obj2 then Top else Bottom))
      in \<lparr> overlapX = ox, overlapY = oy, direction = d \<rparr>)"

section \<open>Collision resolution\<close>

text \<open>
  Objects are mutated in place through their references. \<open>modify i f\<close> is the write to the
  object at position \<open>i\<close>; \<open>unless_static i f\<close> is \<open>if (!obj.isStatic) ...\<close>. The writes are
  sequenced as in the source, which also fixes what happens when both references are the
  same object.
\<close>

definition modify :: "nat \<Rightarrow> (game_object \<Rightarrow> game_object) \<Rightarrow> engine \<Rightarrow> engine" where
  "modify i f s = s\<lparr>gameObjects := (gameObjects s)[i := f (gameObjects s ! i)]\<rparr>"

definition unless_static :: "nat \<Rightarrow> (game_object \<Rightarrow> game_object) \<Rightarrow> engine \<Rightarrow> engine" where
  "unless_static i f s = (if isStatic (gameObjects s ! i) then s else modify i f s)"

definition resolve_position :: "nat \<Rightarrow> nat \<Rightarrow> collision_data \<Rightarrow> engine \<Rightarrow> engine" where
  "resolve_position i j d s =
     (case direction d of
        Left \<Rightarrow>
          unless_static j (\<lambda>ob. ob\<lparr>x := x ob + overlapX d\<rparr>)
            (unless_static i (\<lambda>ob. ob\<lparr>x := x ob - overlapX d\<rparr>) s)
      | Right \<Rightarrow>
          unless_static j (\<lambda>ob. ob\<lparr>x := x ob - overlapX d\<rparr>)
            (unless_static i (\<lambda>ob. ob\<lparr>x := x ob + overlapX d\<rparr>) s)
      | Top \<Rightarrow>
          unless_static j (\<lambda>ob. ob\<lparr>y := y ob + overlapY d\<rparr>)
            (unless_static i (\<lambda>ob. ob\<lparr>y := y ob - overlapY d\<rparr>) s)
      | Bottom \<Rightarrow>
          unless_static j (\<lambda>ob. ob\<lparr>y := y ob - overlapY d\<rparr>)
            (unless_static i (\<lambda>ob. ob\<lparr>y := y ob + overlapY d\<rparr>) s))"

definition resolve_velocity :: "nat \<Rightarrow> nat \<Rightarrow> collision_data \<Rightarrow> engine \<Rightarrow> engine" where
  "resolve_velocity i j d s =
     (if direction d = Left \<or> direction d = Right
      then unless_static j (\<lambda>ob. ob\<lparr>velocityX := 0\<rparr>)
             (unless_static i (\<lambda>ob. ob\<lparr>velocityX := 0\<rparr>) s)
      else unless_static j (\<lambda>ob. ob\<lparr>velocityY := 0\<rparr>)
             (unless_static i (\<lambda>ob. ob\<lparr>velocityY := 0\<rparr>) s))"

definition resolveCollision :: "nat \<Rightarrow> nat \<Rightarrow> collision_data \<Rightarrow> engine \<Rightarrow> engine" where
  "resolveCollision i j d s =
     (if isStatic (gameObjects s ! i) \<and> isStatic (gameObjects s ! j) then s
      else resolve_velocity i j d (resolve_position i j d s))"

text \<open>\<open>if (obj.onCollision) obj.onCollision(other, collisionData)\<close>, with no \<open>try\<close>.\<close>

definition call_onCollision :: "nat \<Rightarrow> nat \<Rightarrow> collision_data \<Rightarrow> engine \<Rightarrow> outcome" where
  "call_onCollision i j d s =
     (case onCollision (gameObjects s ! i) of
        Some cb \<Rightarrow> invoke cb [ObjRef j, CollisionData d] s
      | None \<Rightarrow> Inr s)"

text \<open>The body of the inner loop of \<open>checkCollisions\<close>, for the pair \<open>(i, j)\<close>.\<close>

definition check_pair :: "nat \<Rightarrow> nat \<Rightarrow> engine \<Rightarrow> outcome" where
  "check_pair i j s =
     (let obj1 = gameObjects s ! i; obj2 = gameObjects s ! j
      in if isColliding obj1 obj2
         then (let collisionData = getCollisionData obj1 obj2;
                   s1 = resolveCollision i j collisionData s
               in and_then (and_then (call_onCollision i j collisionData s1)
                                     (call_onCollision j i collisionData))
                    (emit ''collision'' (CollisionEvent i j collisionData)))
         else Inr s)"

definition check_row :: "nat \<Rightarrow> engine \<Rightarrow> outcome" where
  "check_row i s = forEach (check_pair i) [Suc i ..< length (gameObjects s)] s"

definition checkCollisions :: "engine \<Rightarrow> outcome" where
  "checkCollisions s = forEach check_row [0 ..< length (gameObjects s)] s"

section \<open>Physics integration\<close>

definition isOnGround :: "engine \<Rightarrow> nat \<Rightarrow> bool" where
  "isOnGround s i =
     (let obj = gameObjects s ! i;
          feet = \<lparr> x = x obj, y = y obj + height obj + 1, width = width obj, height = 1 \<rparr>
      in list_ex (\<lambda>k. k \<noteq> i \<and> \<not> isPlatform (gameObjects s ! k) \<and>
                       isColliding feet (gameObjects s ! k))
           [0 ..< length (gameObjects s)])"

text \<open>The body of the \<open>forEach\<close> in \<open>update\<close>, for the object at position \<open>i\<close>.\<close>

definition update_obj :: "real \<Rightarrow> nat \<Rightarrow> engine \<Rightarrow> outcome" where
  "update_obj deltaTime i s =
     (if \<not> isStatic (gameObjects s ! i)
      then (let s1 = (case autoMove (gameObjects s ! i) of
                        Some a \<Rightarrow> modify i (\<lambda>ob. ob\<lparr>velocityX := fst a, velocityY := snd a\<rparr>) s
                      | None \<Rightarrow> s);
                s2 = (if requireGround (gameObjects s1 ! i) \<and> \<not> isOnGround s1 i
                      then modify i (\<lambda>ob. ob\<lparr>velocityY := velocityY ob + 500 * (deltaTime / 500)\<rparr>) s1
                      else s1);
                s3 = modify i (\<lambda>ob. ob\<lparr>x := x ob + velocityX ob * (deltaTime / 1000)\<rparr>) s2;
                s4 = modify i (\<lambda>ob. ob\<lparr>y := y ob + velocityY ob * (deltaTime / 1000)\<rparr>) s3
            in emit ''hitBoundary'' (ObjRef i) s4)
      else Inr s)"

definition update :: "real \<Rightarrow> engine \<Rightarrow> outcome" where
  "update deltaTime s = forEach (update_obj deltaTime) [0 ..< length (gameObjects s)] s"

text \<open>The state in which \<open>update\<close> reaches the object at position \<open>i\<close>.\<close>

definition update_upto :: "real \<Rightarrow> nat \<Rightarrow> engine \<Rightarrow> outcome" where
  "update_upto deltaTime i s = forEach (update_obj deltaTime) [0 ..< i] s"

section \<open>Derived notions used in the statements\<close>

text \<open>The callbacks subscribed to an event, in subscription order.\<close>

definition subscribers :: "engine \<Rightarrow> string \<Rightarrow> callback list" where
  "subscribers s event = (case eventListeners s event of Some l \<Rightarrow> l | None \<Rightarrow> [])"

text \<open>A callback that returns from every call.\<close>

definition quiet :: "callback \<Rightarrow> bool" where
  "quiet cb \<longleftrightarrow> (\<forall>args. \<not> cb_raises cb args)"

text \<open>The state the constructor leaves: no objects, \<open>eventListeners = {}\<close>.\<close>

definition new_engine :: engine where
  "new_engine = \<lparr> gameObjects = [], eventListeners = Map.empty, timers = [],
                  invoked = [], published = [] \<rparr>"

text \<open>
  The net effect of one pass of the \<open>update\<close> loop body on a non-static object, as one
  expression; it is proved equal to the sequence of writes of \<open>update_obj\<close> below.
\<close>

definition step_obj :: "real \<Rightarrow> engine \<Rightarrow> nat \<Rightarrow> game_object" where
  "step_obj deltaTime s i =
     (let ob = gameObjects s ! i;
          vx = (case autoMove ob of Some a \<Rightarrow> fst a | None \<Rightarrow> velocityX ob);
          vy0 = (case autoMove ob of Some a \<Rightarrow> snd a | None \<Rightarrow> velocityY ob);
          vy = (if requireGround ob \<and> \<not> isOnGround s i then vy0 + 500 * (deltaTime / 500) else vy0)
      in ob\<lparr> velocityX := vx, velocityY := vy,
              x := x ob + vx * (deltaTime / 1000), y := y ob + vy * (deltaTime / 1000) \<rparr>)"

section \<open>Concrete scenes\<close>

text \<open>
  Objects and scenes for the concrete evaluations: a box at a position with a size, static
  or not, everything else at its default.
\<close>

definition box :: "real \<Rightarrow> real \<Rightarrow> real \<Rightarrow> real \<Rightarrow> bool \<Rightarrow> game_object" where
  "box px py w h st =
     \<lparr> x = px, y = py, width = w, height = h, obj_id = ''box'', velocityX = 0, velocityY = 0,
       autoMove = None, isStatic = st, isPlayerControlled = False, requireGround = False,
       tag = [], onCollision = None, isPlatform = False \<rparr>"

definition scene :: "game_object list \<Rightarrow> engine" where
  "scene obs = new_engine\<lparr>gameObjects := obs\<rparr>"

text \<open>A narrow dynamic box inside the horizontal extent of a wide static one.\<close>

definition nested_scene :: engine where
  "nested_scene = scene [box 0 0 100 100 True, box 1 0 10 100 False]"

text \<open>The spec's scenario: A static at (0, 0, 50, 50), B dynamic at (40, 0, 50, 50).\<close>

definition wall_scene :: engine where
  "wall_scene = scene [box 0 0 50 50 True, box 40 0 50 50 False]"

text \<open>Two overlapping static boxes with collision callbacks \<open>a\<close> and \<open>b\<close>.\<close>

definition static_pair :: "callback \<Rightarrow> callback \<Rightarrow> engine" where
  "static_pair a b = scene [(box 0 0 10 10 True)\<lparr>onCollision := Some a\<rparr>,
                            (box 5 5 10 10 True)\<lparr>onCollision := Some b\<rparr>]"

text \<open>Callbacks that always return, and one that always throws.\<close>

definition calm :: "string \<Rightarrow> callback" where
  "calm n = Callback n (\<lambda>args. False)"

definition boom :: callback where
  "boom = Callback ''boom'' (\<lambda>args. True)"

text \<open>
  A static box and two dynamic ones, with the listeners \<open>l\<close> subscribed to
  \<open>hitBoundary\<close>.
\<close>

definition listening_scene :: "callback list \<Rightarrow> engine" where
  "listening_scene l =
     (scene [box 0 0 10 10 True, box 50 0 10 10 False, box 100 0 10 10 False])
       \<lparr>eventListeners := [''hitBoundary'' \<mapsto> l]\<rparr>"

text \<open>
  No callback that \<open>checkCollisions\<close> may call raises: the \<open>collision\<close> listeners and the
  objects' \<open>onCollision\<close> callbacks.
\<close>

definition collision_callbacks_quiet :: "engine \<Rightarrow> bool" where
  "collision_callbacks_quiet s \<longleftrightarrow>
     (\<forall>cb \<in> set (subscribers s ''collision''). quiet cb) \<and>
     (\<forall>ob \<in> set (gameObjects s). \<forall>cb. onCollision ob = Some cb \<longrightarrow> quiet cb)"

text \<open>A single box that requires ground and has none; the second one also has \<open>autoMove\<close>.\<close>

definition falling_scene :: engine where
  "falling_scene = scene [(box 0 0 10 10 False)\<lparr>requireGround := True\<rparr>]"

definition automove_scene :: engine where
  "automove_scene = scene [(box 0 0 10 10 False)\<lparr>requireGround := True, autoMove := Some (0, 100)\<rparr>]"

section \<open>Basic facts\<close>

lemmas scene_defs = scene_def new_engine_def box_def

text \<open>
  The events the engine itself publishes are not names inherited from
  \<open>Object.prototype\<close>. A loop is split at any point, an invariant of the body that
  returns is one of the loop, and a property kept by the state the body leaves, returned
  or raised, is kept by the state the loop leaves.
\<close>

lemma final_simps [simp]: "final (Inr s) = s" "final (Inl (e, s)) = s"
  by (simp_all add: final_def)

lemma and_then_simps [simp]: "and_then (Inr s) f = f s" "and_then (Inl p) f = Inl p"
  by (simp_all add: and_then_def split: prod.splits)

lemma hitBoundary_own: "''hitBoundary'' \<notin> set object_prototype_keys"
  by (simp add: object_prototype_keys_def)

lemma collision_own: "''collision'' \<notin> set object_prototype_keys"
  by (simp add: object_prototype_keys_def)

lemma forEach_append:
  "forEach f (as @ bs) s = and_then (forEach f as s) (forEach f bs)"
  by (induction as arbitrary: s) (auto simp add: and_then_def split: sum.splits)

lemma forEach_invariant:
  assumes "\<And>a s. a \<in> set as \<Longrightarrow> P s \<Longrightarrow> \<exists>s'. f a s = Inr s' \<and> P s'" and "P s"
  shows "\<exists>s'. forEach f as s = Inr s' \<and> P s'"
  using assms
proof (induction as arbitrary: s)
  case Nil
  then show ?case by simp
next
  case (Cons a as)
  from Cons.prems obtain s1 where s1: "f a s = Inr s1" "P s1" by fastforce
  have "\<exists>s'. forEach f as s1 = Inr s' \<and> P s'"
    by (rule Cons.IH) (use Cons.prems s1 in auto)
  with s1 show ?case by simp
qed

lemma forEach_final:
  assumes "\<And>a s. a \<in> set as \<Longrightarrow> P s \<Longrightarrow> P (final (f a s))" and "P s"
  shows "P (final (forEach f as s))"
  using assms
proof (induction as arbitrary: s)
  case Nil
  then show ?case by simp
next
  case (Cons a as)
  have step: "P (final (f a s))" using Cons.prems by simp
  show ?case
  proof (cases "f a s")
    case (Inl p)
    with step show ?thesis by simp
  next
    case (Inr s1)
    with step have "P s1" by simp
    then have "P (final (forEach f as s1))"
      by (rule Cons.IH [rotated]) (use Cons.prems in auto)
    with Inr show ?thesis by simp
  qed
qed

lemma forEach_establish:
  assumes pre: "\<And>b s. b \<in> set pre \<Longrightarrow> P s \<Longrightarrow> \<exists>s'. f b s = Inr s' \<and> P s'"
    and mid: "\<And>s. P s \<Longrightarrow> \<exists>s'. f a s = Inr s' \<and> Q s'"
    and post: "\<And>b s. b \<in> set post \<Longrightarrow> Q s \<Longrightarrow> \<exists>s'. f b s = Inr s' \<and> Q s'"
    and "P s"
  shows "\<exists>s'. forEach f (pre @ a # post) s = Inr s' \<and> Q s'"
proof -
  from forEach_invariant [of pre P f s, OF pre \<open>P s\<close>]
  obtain s1 where s1: "forEach f pre s = Inr s1" "P s1" by blast
  from mid [OF s1(2)] obtain s2 where s2: "f a s1 = Inr s2" "Q s2" by blast
  from forEach_invariant [of post Q f s2, OF post s2(2)]
  obtain s3 where s3: "forEach f post s2 = Inr s3" "Q s3" by blast
  show ?thesis using s1 s2 s3 by (simp add: forEach_append)
qed

lemma upt_split: "i < n \<Longrightarrow> [0 ..< n] = [0 ..< i] @ i # [Suc i ..< n]"
  using upt_add_eq_append [of 0 i "n - i"] by (simp add: upt_conv_Cons)

lemma upt_split_from: "a \<le> i \<Longrightarrow> i < n \<Longrightarrow> [a ..< n] = [a ..< i] @ i # [Suc i ..< n]"
  using upt_add_eq_append [of a i "n - i"] by (simp add: upt_conv_Cons)

lemma invoke_final [simp]:
  "final (invoke cb args s) = s\<lparr>invoked := invoked s @ [(cb, args)]\<rparr>"
  by (simp add: invoke_def Let_def)

lemma invoke_quiet:
  "\<not> cb_raises cb args \<Longrightarrow> invoke cb args s = Inr (s\<lparr>invoked := invoked s @ [(cb, args)]\<rparr>)"
  by (simp add: invoke_def Let_def)

lemma invoke_all_quiet:
  "\<forall>cb \<in> set l. quiet cb \<Longrightarrow>
   forEach (\<lambda>cb. invoke cb args) l s = Inr (s\<lparr>invoked := invoked s @ map (\<lambda>cb. (cb, args)) l\<rparr>)"
  by (induction l arbitrary: s) (simp_all add: invoke_quiet quiet_def)

lemma invoke_all_final:
  "gameObjects (final (forEach (\<lambda>cb. invoke cb args) l s)) = gameObjects s \<and>
   eventListeners (final (forEach (\<lambda>cb. invoke cb args) l s)) = eventListeners s \<and>
   published (final (forEach (\<lambda>cb. invoke cb args) l s)) = published s \<and>
   timers (final (forEach (\<lambda>cb. invoke cb args) l s)) = timers s \<and>
   (\<exists>qs. invoked (final (forEach (\<lambda>cb. invoke cb args) l s)) = invoked s @ qs)"
  by (rule forEach_final
      [where P = "\<lambda>t. gameObjects t = gameObjects s \<and> eventListeners t = eventListeners s \<and>
                       published t = published s \<and> timers t = timers s \<and>
                       (\<exists>qs. invoked t = invoked s @ qs)"]) auto

lemma emit_quiet:
  "event \<notin> set object_prototype_keys \<Longrightarrow> \<forall>cb \<in> set (subscribers s event). quiet cb \<Longrightarrow>
   emit event d s = Inr (s\<lparr>published := published s @ [(event, d)],
                           invoked := invoked s @ map (\<lambda>cb. (cb, [d])) (subscribers s event)\<rparr>)"
  by (simp add: emit_def lookup_listeners_def subscribers_def Let_def invoke_all_quiet
      split: option.splits)

lemma emit_final:
  "gameObjects (final (emit event d s)) = gameObjects s"
  "eventListeners (final (emit event d s)) = eventListeners s"
  "published (final (emit event d s)) = published s @ [(event, d)]"
  "timers (final (emit event d s)) = timers s"
  "\<exists>qs. invoked (final (emit event d s)) = invoked s @ qs"
  using invoke_all_final [of "[d]" _ "s\<lparr>published := published s @ [(event, d)]\<rparr>"]
  by (simp_all add: emit_def lookup_listeners_def Let_def split: option.splits)

lemma on_Inr:
  "event \<notin> set object_prototype_keys \<Longrightarrow>
   on event cb s = Inr (s\<lparr>eventListeners := (eventListeners s)(event \<mapsto> subscribers s event @ [cb])\<rparr>)"
  by (simp add: on_def lookup_listeners_def subscribers_def split: option.splits)

lemma isOnGround_velocity:
  "i < length (gameObjects s) \<Longrightarrow>
   isOnGround (s\<lparr>gameObjects := (gameObjects s)[i := (gameObjects s ! i)\<lparr>velocityX := vx, velocityY := vy\<rparr>]\<rparr>) i
     = isOnGround s i"
  by (auto simp add: isOnGround_def modify_def Let_def list_ex_iff nth_list_update)

lemma update_obj_static:
  "isStatic (gameObjects s ! i) \<Longrightarrow> update_obj dt i s = Inr s"
  by (simp add: update_obj_def)

lemma update_obj_dynamic:
  assumes "i < length (gameObjects s)" and "\<not> isStatic (gameObjects s ! i)"
  shows "update_obj dt i s =
           emit ''hitBoundary'' (ObjRef i) (s\<lparr>gameObjects := (gameObjects s)[i := step_obj dt s i]\<rparr>)"
  using assms
  by (cases "autoMove (gameObjects s ! i)")
     (auto simp add: update_obj_def Let_def step_obj_def isOnGround_velocity modify_def)

lemma step_obj_isStatic: "isStatic (step_obj dt s i) = isStatic (gameObjects s ! i)"
  by (simp add: step_obj_def Let_def)

lemma update_obj_final:
  assumes "i < length (gameObjects s)"
  shows "gameObjects (final (update_obj dt i s)) =
           (if isStatic (gameObjects s ! i) then gameObjects s
            else (gameObjects s)[i := step_obj dt s i])"
    and "eventListeners (final (update_obj dt i s)) = eventListeners s"
    and "published (final (update_obj dt i s)) = published s @
           (if isStatic (gameObjects s ! i) then [] else [(''hitBoundary'', ObjRef i)])"
  using assms
  by (cases "isStatic (gameObjects s ! i)";
      simp add: update_obj_static update_obj_dynamic emit_final)+

lemma update_obj_quiet:
  assumes "i < length (gameObjects s)" and "\<forall>cb \<in> set (subscribers s ''hitBoundary''). quiet cb"
  shows "update_obj dt i s =
           Inr (if isStatic (gameObjects s ! i) then s
                else s\<lparr>gameObjects := (gameObjects s)[i := step_obj dt s i],
                       published := published s @ [(''hitBoundary'', ObjRef i)],
                       invoked := invoked s @
                         map (\<lambda>cb. (cb, [ObjRef i])) (subscribers s ''hitBoundary'')\<rparr>)"
  using assms
  by (cases "isStatic (gameObjects s ! i)")
     (simp_all add: update_obj_static update_obj_dynamic emit_quiet [OF hitBoundary_own]
        subscribers_def)

section \<open>The update loop\<close>

lemma update_keeps_static:
  assumes "i < length (gameObjects s)" and "isStatic (gameObjects s ! i)"
    and "set ks \<subseteq> {..< length (gameObjects s)}"
  shows "length (gameObjects (final (forEach (update_obj dt) ks s))) = length (gameObjects s) \<and>
         eventListeners (final (forEach (update_obj dt) ks s)) = eventListeners s \<and>
         gameObjects (final (forEach (update_obj dt) ks s)) ! i = gameObjects s ! i"
proof (rule forEach_final
    [where P = "\<lambda>t. length (gameObjects t) = length (gameObjects s) \<and>
                    eventListeners t = eventListeners s \<and>
                    gameObjects t ! i = gameObjects s ! i"])
  fix k and t :: engine
  assume k: "k \<in> set ks"
    and t: "length (gameObjects t) = length (gameObjects s) \<and>
            eventListeners t = eventListeners s \<and> gameObjects t ! i = gameObjects s ! i"
  from k assms(3) have kt: "k < length (gameObjects t)" using t by auto
  show "length (gameObjects (final (update_obj dt k t))) = length (gameObjects s) \<and>
        eventListeners (final (update_obj dt k t)) = eventListeners s \<and>
        gameObjects (final (update_obj dt k t)) ! i = gameObjects s ! i"
    using t assms(1,2) update_obj_final [OF kt, of dt] by (cases "k = i") auto
qed simp

lemma update_keeps_other:
  assumes "i < length (gameObjects s)" and "i \<notin> set ks"
    and "set ks \<subseteq> {..< length (gameObjects s)}"
  shows "length (gameObjects (final (forEach (update_obj dt) ks s))) = length (gameObjects s) \<and>
         gameObjects (final (forEach (update_obj dt) ks s)) ! i = gameObjects s ! i"
proof (rule forEach_final
    [where P = "\<lambda>t. length (gameObjects t) = length (gameObjects s) \<and>
                    gameObjects t ! i = gameObjects s ! i"])
  fix k and t :: engine
  assume k: "k \<in> set ks"
    and t: "length (gameObjects t) = length (gameObjects s) \<and> gameObjects t ! i = gameObjects s ! i"
  from k assms(3) have kt: "k < length (gameObjects t)" using t by auto
  from k assms(2) have "k \<noteq> i" by auto
  then show "length (gameObjects (final (update_obj dt k t))) = length (gameObjects s) \<and>
        gameObjects (final (update_obj dt k t)) ! i = gameObjects s ! i"
    using t update_obj_final [OF kt, of dt] by auto
qed simp

lemma update_returns:
  assumes "set ks \<subseteq> {..< length (gameObjects s)}"
    and "\<forall>cb \<in> set (subscribers s ''hitBoundary''). quiet cb"
  shows "\<exists>s'. forEach (update_obj dt) ks s = Inr s' \<and>
           length (gameObjects s') = length (gameObjects s) \<and>
           (\<forall>k < length (gameObjects s). isStatic (gameObjects s' ! k) = isStatic (gameObjects s ! k)) \<and>
           eventListeners s' = eventListeners s \<and>
           published s' = published s @
             map (\<lambda>i. (''hitBoundary'', ObjRef i))
               (filter (\<lambda>i. \<not> isStatic (gameObjects s ! i)) ks) \<and>
           invoked s' = invoked s @
             concat (map (\<lambda>i. map (\<lambda>cb. (cb, [ObjRef i])) (subscribers s ''hitBoundary''))
               (filter (\<lambda>i. \<not> isStatic (gameObjects s ! i)) ks))"
  using assms
proof (induction ks arbitrary: s)
  case Nil
  then show ?case by simp
next
  case (Cons k ks)
  from Cons.prems have k: "k < length (gameObjects s)" by simp
  define s1 where "s1 = (if isStatic (gameObjects s ! k) then s
                else s\<lparr>gameObjects := (gameObjects s)[k := step_obj dt s k],
                       published := published s @ [(''hitBoundary'', ObjRef k)],
                       invoked := invoked s @
                         map (\<lambda>cb. (cb, [ObjRef k])) (subscribers s ''hitBoundary'')\<rparr>)"
  have step: "update_obj dt k s = Inr s1"
    unfolding s1_def by (rule update_obj_quiet [OF k Cons.prems(2)])
  have s1: "length (gameObjects s1) = length (gameObjects s)"
    "\<forall>m < length (gameObjects s). isStatic (gameObjects s1 ! m) = isStatic (gameObjects s ! m)"
    "eventListeners s1 = eventListeners s"
    "published s1 = published s @
       (if isStatic (gameObjects s ! k) then [] else [(''hitBoundary'', ObjRef k)])"
    "invoked s1 = invoked s @
       (if isStatic (gameObjects s ! k) then []
        else map (\<lambda>cb. (cb, [ObjRef k])) (subscribers s ''hitBoundary''))"
    using k by (simp_all add: s1_def nth_list_update step_obj_isStatic)
  have sub1: "subscribers s1 ''hitBoundary'' = subscribers s ''hitBoundary''"
    using s1(3) by (simp add: subscribers_def)
  have sub: "set ks \<subseteq> {..< length (gameObjects s1)}" using Cons.prems s1(1) by simp
  have q: "\<forall>cb \<in> set (subscribers s1 ''hitBoundary''). quiet cb"
    using Cons.prems(2) sub1 by simp
  from Cons.IH [OF sub q] obtain s2 where s2:
    "forEach (update_obj dt) ks s1 = Inr s2" "length (gameObjects s2) = length (gameObjects s1)"
    "\<forall>m < length (gameObjects s1). isStatic (gameObjects s2 ! m) = isStatic (gameObjects s1 ! m)"
    "eventListeners s2 = eventListeners s1"
    "published s2 = published s1 @
       map (\<lambda>i. (''hitBoundary'', ObjRef i)) (filter (\<lambda>i. \<not> isStatic (gameObjects s1 ! i)) ks)"
    "invoked s2 = invoked s1 @
       concat (map (\<lambda>i. map (\<lambda>cb. (cb, [ObjRef i])) (subscribers s1 ''hitBoundary''))
         (filter (\<lambda>i. \<not> isStatic (gameObjects s1 ! i)) ks))"
    by blast
  have flt: "filter (\<lambda>i. \<not> isStatic (gameObjects s1 ! i)) ks
           = filter (\<lambda>i. \<not> isStatic (gameObjects s ! i)) ks"
    by (rule filter_cong) (use Cons.prems s1(2) in auto)
  show ?case using step s1 s2 flt sub1 by auto
qed

lemma update_object_i:
  assumes i: "i < length (gameObjects s)" and si: "update_upto dt i s = Inr si"
  shows "length (gameObjects si) = length (gameObjects s)"
    and "gameObjects si ! i = gameObjects s ! i"
    and "gameObjects (final (update dt s)) ! i =
           (if isStatic (gameObjects s ! i) then gameObjects s ! i else step_obj dt si i)"
proof -
  let ?n = "length (gameObjects s)"
  have pre: "i \<notin> set [0 ..< i]" "set [0 ..< i] \<subseteq> {..< ?n}" using i by auto
  from update_keeps_other [OF i pre, of dt] si
  show len: "length (gameObjects si) = ?n" and same: "gameObjects si ! i = gameObjects s ! i"
    by (simp_all add: update_upto_def)
  have i': "i < length (gameObjects si)" using len i by simp
  have obj: "gameObjects (final (update_obj dt i si)) ! i =
           (if isStatic (gameObjects s ! i) then gameObjects s ! i else step_obj dt si i)"
    and len1: "length (gameObjects (final (update_obj dt i si))) = ?n"
    using same len i' by (simp_all add: update_obj_final [OF i'])
  have split: "update dt s = and_then (update_obj dt i si) (forEach (update_obj dt) [Suc i ..< ?n])"
    using si by (simp add: update_def update_upto_def upt_split [OF i] forEach_append)
  show "gameObjects (final (update dt s)) ! i =
           (if isStatic (gameObjects s ! i) then gameObjects s ! i else step_obj dt si i)"
  proof (cases "update_obj dt i si")
    case (Inl p)
    then show ?thesis using obj split by (cases p) simp
  next
    case (Inr t)
    with obj len1 have t: "gameObjects t ! i =
           (if isStatic (gameObjects s ! i) then gameObjects s ! i else step_obj dt si i)"
      "length (gameObjects t) = ?n" by simp_all
    have it: "i < length (gameObjects t)" using t i by simp
    have post: "i \<notin> set [Suc i ..< ?n]" "set [Suc i ..< ?n] \<subseteq> {..< length (gameObjects t)}"
      using t by auto
    from update_keeps_other [OF it post, of dt] t Inr split show ?thesis by simp
  qed
qed

lemma unless_static_length [simp]:
  "length (gameObjects (unless_static i f s)) = length (gameObjects s)"
  by (simp add: unless_static_def modify_def)

lemma unless_static_other [simp]:
  "eventListeners (unless_static i f s) = eventListeners s"
  "published (unless_static i f s) = published s"
  "invoked (unless_static i f s) = invoked s"
  "timers (unless_static i f s) = timers s"
  by (simp_all add: unless_static_def modify_def)

lemma unless_static_keeps:
  "k < length (gameObjects s) \<Longrightarrow> isStatic (gameObjects s ! k) \<Longrightarrow>
   gameObjects (unless_static i f s) ! k = gameObjects s ! k"
  by (cases "i = k") (auto simp add: unless_static_def modify_def)

lemma unless_static_field:
  assumes "\<And>ob. g (f ob) = g ob"
  shows "map g (gameObjects (unless_static i f s)) = map g (gameObjects s)"
proof (rule nth_equalityI)
  show "length (map g (gameObjects (unless_static i f s))) = length (map g (gameObjects s))"
    by simp
next
  fix k
  assume "k < length (map g (gameObjects (unless_static i f s)))"
  then have "k < length (gameObjects s)" by simp
  then show "map g (gameObjects (unless_static i f s)) ! k = map g (gameObjects s) ! k"
    by (cases "k = i") (auto simp add: unless_static_def modify_def assms)
qed

lemma resolve_position_frame [simp]:
  "length (gameObjects (resolve_position i j d s)) = length (gameObjects s)"
  "eventListeners (resolve_position i j d s) = eventListeners s"
  "published (resolve_position i j d s) = published s"
  "invoked (resolve_position i j d s) = invoked s"
  "timers (resolve_position i j d s) = timers s"
  by (simp_all add: resolve_position_def split: direction.splits)

lemma resolve_velocity_frame [simp]:
  "length (gameObjects (resolve_velocity i j d s)) = length (gameObjects s)"
  "eventListeners (resolve_velocity i j d s) = eventListeners s"
  "published (resolve_velocity i j d s) = published s"
  "invoked (resolve_velocity i j d s) = invoked s"
  "timers (resolve_velocity i j d s) = timers s"
  by (simp_all add: resolve_velocity_def)

lemma resolve_position_keeps:
  "k < length (gameObjects s) \<Longrightarrow> isStatic (gameObjects s ! k) \<Longrightarrow>
   gameObjects (resolve_position i j d s) ! k = gameObjects s ! k"
  by (simp add: resolve_position_def unless_static_keeps split: direction.splits)

lemma resolve_velocity_keeps:
  "k < length (gameObjects s) \<Longrightarrow> isStatic (gameObjects s ! k) \<Longrightarrow>
   gameObjects (resolve_velocity i j d s) ! k = gameObjects s ! k"
  by (simp add: resolve_velocity_def unless_static_keeps)

lemma resolveCollision_frame [simp]:
  "length (gameObjects (resolveCollision i j d s)) = length (gameObjects s)"
  "eventListeners (resolveCollision i j d s) = eventListeners s"
  "published (resolveCollision i j d s) = published s"
  "invoked (resolveCollision i j d s) = invoked s"
  "timers (resolveCollision i j d s) = timers s"
  by (simp_all add: resolveCollision_def)

lemma resolveCollision_keeps:
  "k < length (gameObjects s) \<Longrightarrow> isStatic (gameObjects s ! k) \<Longrightarrow>
   gameObjects (resolveCollision i j d s) ! k = gameObjects s ! k"
  by (simp add: resolveCollision_def resolve_position_keeps resolve_velocity_keeps)

lemma resolveCollision_onCollision:
  "map onCollision (gameObjects (resolveCollision i j d s)) = map onCollision (gameObjects s)"
  by (cases "direction d")
     (simp_all add: resolveCollision_def resolve_position_def resolve_velocity_def
        unless_static_field)

section \<open>The collision loop\<close>

lemma collision_callbacks_quiet_cong:
  assumes "map onCollision (gameObjects t) = map onCollision (gameObjects s)"
    and "eventListeners t = eventListeners s"
  shows "collision_callbacks_quiet t = collision_callbacks_quiet s"
proof -
  have "onCollision ` set (gameObjects t) = onCollision ` set (gameObjects s)"
    using arg_cong [OF assms(1), of set] by simp
  then have "(\<forall>ob \<in> set (gameObjects t). \<forall>cb. onCollision ob = Some cb \<longrightarrow> quiet cb)
      = (\<forall>ob \<in> set (gameObjects s). \<forall>cb. onCollision ob = Some cb \<longrightarrow> quiet cb)"
    by (metis (no_types, lifting) image_iff)
  then show ?thesis using assms(2) by (simp add: collision_callbacks_quiet_def subscribers_def)
qed

lemma call_onCollision_final [simp]:
  "gameObjects (final (call_onCollision a b d s)) = gameObjects s"
  "eventListeners (final (call_onCollision a b d s)) = eventListeners s"
  "published (final (call_onCollision a b d s)) = published s"
  "timers (final (call_onCollision a b d s)) = timers s"
  "invoked (final (call_onCollision a b d s)) = invoked s @
     (case onCollision (gameObjects s ! a) of
        Some cb \<Rightarrow> [(cb, [ObjRef b, CollisionData d])] | None \<Rightarrow> [])"
  by (simp_all add: call_onCollision_def split: option.splits)

lemma call_onCollision_quiet:
  assumes "\<forall>cb. onCollision (gameObjects s ! a) = Some cb \<longrightarrow> quiet cb"
  shows "call_onCollision a b d s = Inr (s\<lparr>invoked := invoked s @
     (case onCollision (gameObjects s ! a) of
        Some cb \<Rightarrow> [(cb, [ObjRef b, CollisionData d])] | None \<Rightarrow> [])\<rparr>)"
  using assms
  by (cases "onCollision (gameObjects s ! a)")
     (simp_all add: call_onCollision_def invoke_quiet quiet_def)

lemma check_pair_miss:
  "\<not> isColliding (gameObjects s ! a) (gameObjects s ! b) \<Longrightarrow> check_pair a b s = Inr s"
  by (simp add: check_pair_def)

lemma check_pair_quiet:
  assumes a: "a < length (gameObjects s)" and b: "b < length (gameObjects s)"
    and q: "collision_callbacks_quiet s"
    and hit: "isColliding (gameObjects s ! a) (gameObjects s ! b)"
  shows "check_pair a b s =
     Inr ((resolveCollision a b (getCollisionData (gameObjects s ! a) (gameObjects s ! b)) s)
          \<lparr>published := published s @
              [(''collision'', CollisionEvent a b (getCollisionData (gameObjects s ! a) (gameObjects s ! b)))],
            invoked := invoked s @
              (case onCollision (gameObjects s ! a) of
                 Some cb \<Rightarrow> [(cb, [ObjRef b, CollisionData (getCollisionData (gameObjects s ! a) (gameObjects s ! b))])]
               | None \<Rightarrow> []) @
              (case onCollision (gameObjects s ! b) of
                 Some cb \<Rightarrow> [(cb, [ObjRef a, CollisionData (getCollisionData (gameObjects s ! a) (gameObjects s ! b))])]
               | None \<Rightarrow> []) @
              map (\<lambda>cb. (cb, [CollisionEvent a b (getCollisionData (gameObjects s ! a) (gameObjects s ! b))]))
                (subscribers s ''collision'')\<rparr>)"
proof -
  define d where "d = getCollisionData (gameObjects s ! a) (gameObjects s ! b)"
  define s1 where "s1 = resolveCollision a b d s"
  define ca where "ca = (case onCollision (gameObjects s ! a) of
                 Some cb \<Rightarrow> [(cb, [ObjRef b, CollisionData d])] | None \<Rightarrow> [])"
  define cb where "cb = (case onCollision (gameObjects s ! b) of
                 Some cb \<Rightarrow> [(cb, [ObjRef a, CollisionData d])] | None \<Rightarrow> [])"
  have oc: "onCollision (gameObjects s1 ! k) = onCollision (gameObjects s ! k)"
    if "k < length (gameObjects s)" for k
    using nth_map [of k "gameObjects s1" onCollision] nth_map [of k "gameObjects s" onCollision] that
    by (simp add: s1_def resolveCollision_onCollision)
  have qk: "\<forall>c. onCollision (gameObjects s ! k) = Some c \<longrightarrow> quiet c"
    if "k < length (gameObjects s)" for k
    using q that nth_mem [of k "gameObjects s"] by (auto simp add: collision_callbacks_quiet_def)
  have qs: "\<forall>c \<in> set (subscribers s ''collision''). quiet c"
    using q by (simp add: collision_callbacks_quiet_def)
  define s2 where "s2 = s1\<lparr>invoked := invoked s1 @ ca\<rparr>"
  define s3 where "s3 = s2\<lparr>invoked := invoked s2 @ cb\<rparr>"
  have c1: "call_onCollision a b d s1 = Inr s2"
    unfolding s2_def ca_def oc [OF a, symmetric]
    by (rule call_onCollision_quiet) (use qk [OF a] oc [OF a] in simp)
  have o2: "gameObjects s2 = gameObjects s1" by (simp add: s2_def)
  have c2: "call_onCollision b a d s2 = Inr s3"
    unfolding s3_def cb_def oc [OF b, symmetric] o2 [symmetric]
    by (rule call_onCollision_quiet) (use qk [OF b] oc [OF b] o2 in simp)
  have sub3: "subscribers s3 ''collision'' = subscribers s ''collision''"
    by (simp add: s3_def s2_def s1_def subscribers_def)
  have c3: "emit ''collision'' (CollisionEvent a b d) s3 =
      Inr (s3\<lparr>published := published s3 @ [(''collision'', CollisionEvent a b d)],
              invoked := invoked s3 @
                map (\<lambda>c. (c, [CollisionEvent a b d])) (subscribers s ''collision'')\<rparr>)"
    using emit_quiet [OF collision_own, of s3 "CollisionEvent a b d"] qs sub3 by simp
  have "check_pair a b s =
      Inr (s3\<lparr>published := published s3 @ [(''collision'', CollisionEvent a b d)],
              invoked := invoked s3 @
                map (\<lambda>c. (c, [CollisionEvent a b d])) (subscribers s ''collision'')\<rparr>)"
    using hit c1 c2 c3 by (simp add: check_pair_def Let_def d_def [symmetric] s1_def [symmetric])
  then show ?thesis
    unfolding d_def [symmetric]
    by (simp add: s3_def s2_def s1_def ca_def cb_def)
qed

lemma check_pair_step:
  assumes a: "a < length (gameObjects s)" and b: "b < length (gameObjects s)"
    and q: "collision_callbacks_quiet s"
  shows "\<exists>s'. check_pair a b s = Inr s' \<and>
     length (gameObjects s') = length (gameObjects s) \<and>
     (\<forall>k < length (gameObjects s). isStatic (gameObjects s ! k) \<longrightarrow>
        gameObjects s' ! k = gameObjects s ! k) \<and>
     map onCollision (gameObjects s') = map onCollision (gameObjects s) \<and>
     eventListeners s' = eventListeners s \<and>
     (\<exists>ps. published s' = published s @ ps) \<and>
     (\<exists>qs. invoked s' = invoked s @ qs)"
proof (cases "isColliding (gameObjects s ! a) (gameObjects s ! b)")
  case True
  show ?thesis
    unfolding check_pair_quiet [OF a b q True]
    by (simp add: resolveCollision_keeps resolveCollision_onCollision)
next
  case False
  then show ?thesis by (simp add: check_pair_miss)
qed

lemma and_then_final_objects:
  assumes "\<And>t. gameObjects (final (f t)) = gameObjects t"
  shows "gameObjects (final (and_then r f)) = gameObjects (final r)"
  by (cases r) (auto simp add: assms)

lemma check_pair_final_objects:
  "gameObjects (final (check_pair a b s)) =
     (if isColliding (gameObjects s ! a) (gameObjects s ! b)
      then gameObjects (resolveCollision a b
             (getCollisionData (gameObjects s ! a) (gameObjects s ! b)) s)
      else gameObjects s)"
  by (simp add: check_pair_def Let_def and_then_final_objects emit_final)

lemma checkCollisions_keeps_static:
  fixes s :: engine
  assumes "i < length (gameObjects s)" and "isStatic (gameObjects s ! i)"
  shows "length (gameObjects (final (checkCollisions s))) = length (gameObjects s) \<and>
         gameObjects (final (checkCollisions s)) ! i = gameObjects s ! i"
proof -
  define P where "P = (\<lambda>t :: engine. length (gameObjects t) = length (gameObjects s) \<and>
                         gameObjects t ! i = gameObjects s ! i)"
  have pair: "P (final (check_pair a b t))" if "P t" for a b t
    using that assms unfolding P_def
    by (simp add: check_pair_final_objects resolveCollision_keeps)
  have row: "P (final (check_row a t))" if "P t" for a t
    unfolding check_row_def by (rule forEach_final [where P = P]) (use that pair in auto)
  have "P (final (checkCollisions s))"
    unfolding checkCollisions_def
    by (rule forEach_final [where P = P]) (use row in \<open>auto simp add: P_def\<close>)
  then show ?thesis by (simp add: P_def)
qed

text \<open>
  What \<open>resolveCollision\<close> writes to the two rectangles, and the case in which the
  push separates them: the reported overlap is the penetration measured in the chosen
  direction.
\<close>

lemma resolve_objects:
  fixes s :: engine
  assumes "i \<noteq> j" "i < length (gameObjects s)" "j < length (gameObjects s)"
    and "\<not> (isStatic (gameObjects s ! i) \<and> isStatic (gameObjects s ! j))"
  shows "x (gameObjects (resolveCollision i j d s) ! i) =
           (if isStatic (gameObjects s ! i) then x (gameObjects s ! i)
            else case direction d of Left \<Rightarrow> x (gameObjects s ! i) - overlapX d
                 | Right \<Rightarrow> x (gameObjects s ! i) + overlapX d | _ \<Rightarrow> x (gameObjects s ! i))"
    and "x (gameObjects (resolveCollision i j d s) ! j) =
           (if isStatic (gameObjects s ! j) then x (gameObjects s ! j)
            else case direction d of Left \<Rightarrow> x (gameObjects s ! j) + overlapX d
                 | Right \<Rightarrow> x (gameObjects s ! j) - overlapX d | _ \<Rightarrow> x (gameObjects s ! j))"
    and "y (gameObjects (resolveCollision i j d s) ! i) =
           (if isStatic (gameObjects s ! i) then y (gameObjects s ! i)
            else case direction d of Top \<Rightarrow> y (gameObjects s ! i) - overlapY d
                 | Bottom \<Rightarrow> y (gameObjects s ! i) + overlapY d | _ \<Rightarrow> y (gameObjects s ! i))"
    and "y (gameObjects (resolveCollision i j d s) ! j) =
           (if isStatic (gameObjects s ! j) then y (gameObjects s ! j)
            else case direction d of Top \<Rightarrow> y (gameObjects s ! j) + overlapY d
                 | Bottom \<Rightarrow> y (gameObjects s ! j) - overlapY d | _ \<Rightarrow> y (gameObjects s ! j))"
    and "width (gameObjects (resolveCollision i j d s) ! i) = width (gameObjects s ! i)"
    and "width (gameObjects (resolveCollision i j d s) ! j) = width (gameObjects s ! j)"
    and "height (gameObjects (resolveCollision i j d s) ! i) = height (gameObjects s ! i)"
    and "height (gameObjects (resolveCollision i j d s) ! j) = height (gameObjects s ! j)"
  using assms
  by (cases "direction d";
      simp add: resolveCollision_def resolve_position_def resolve_velocity_def
        unless_static_def modify_def)+

lemma resolveCollision_separates:
  fixes s :: engine
  assumes ij: "i \<noteq> j" "i < length (gameObjects s)" "j < length (gameObjects s)"
    and dyn: "\<not> (isStatic (gameObjects s ! i) \<and> isStatic (gameObjects s ! j))"
    and hit: "isColliding (gameObjects s ! i) (gameObjects s ! j)"
    and d: "d = getCollisionData (gameObjects s ! i) (gameObjects s ! j)"
    and shallow:
      "direction d = Left \<longrightarrow> overlapX d = x (gameObjects s ! i) + width (gameObjects s ! i) - x (gameObjects s ! j)"
      "direction d = Right \<longrightarrow> overlapX d = x (gameObjects s ! j) + width (gameObjects s ! j) - x (gameObjects s ! i)"
      "direction d = Top \<longrightarrow> overlapY d = y (gameObjects s ! i) + height (gameObjects s ! i) - y (gameObjects s ! j)"
      "direction d = Bottom \<longrightarrow> overlapY d = y (gameObjects s ! j) + height (gameObjects s ! j) - y (gameObjects s ! i)"
  shows "(direction d = Left \<or> direction d = Right \<longrightarrow>
            overlapX (getCollisionData (gameObjects (resolveCollision i j d s) ! i)
                                       (gameObjects (resolveCollision i j d s) ! j)) \<le> 0)
       \<and> (direction d = Top \<or> direction d = Bottom \<longrightarrow>
            overlapY (getCollisionData (gameObjects (resolveCollision i j d s) ! i)
                                       (gameObjects (resolveCollision i j d s) ! j)) \<le> 0)"
proof -
  note r = resolve_objects [OF ij dyn, of d]
  have pos: "0 < overlapX d" "0 < overlapY d"
    using hit unfolding d by (simp_all add: getCollisionData_def Let_def isColliding_def)
  have ox: "overlapX (getCollisionData a b) = min (x a + width a - x b) (x b + width b - x a)"
    and oy: "overlapY (getCollisionData a b) = min (y a + height a - y b) (y b + height b - y a)"
    for a b :: game_object
    by (simp_all add: getCollisionData_def Let_def)
  show ?thesis
    using pos shallow dyn
    by (cases "direction d") (auto simp add: ox oy r min_def)
qed

text \<open>
  The event bus on names that are not inherited, with subscribers that return: \<open>on\<close>
  appends the callback to the list of that event only; \<open>emit\<close> invokes every subscriber
  once, in subscription order, with the payload, and changes no engine data; a callback
  subscribed later is invoked later.
\<close>

lemma on_emit_own_names:
  assumes "event \<notin> set object_prototype_keys"
    and "\<forall>cb \<in> set (subscribers s event). quiet cb"
  shows "(\<exists>s1. on event cb s = Inr s1 \<and>
            eventListeners s1 event = Some (subscribers s event @ [cb]) \<and>
            (\<forall>e. e \<noteq> event \<longrightarrow> eventListeners s1 e = eventListeners s e) \<and>
            gameObjects s1 = gameObjects s \<and> invoked s1 = invoked s)
       \<and> (\<exists>s2. emit event d s = Inr s2 \<and>
            invoked s2 = invoked s @ map (\<lambda>f. (f, [d])) (subscribers s event) \<and>
            gameObjects s2 = gameObjects s \<and> eventListeners s2 = eventListeners s \<and>
            timers s2 = timers s)
       \<and> (quiet f1 \<and> quiet f2 \<longrightarrow>
           (\<exists>s1 s2 s3. on event f1 s = Inr s1 \<and> on event f2 s1 = Inr s2 \<and>
              emit event d s2 = Inr s3 \<and>
              invoked s3 = invoked s @ map (\<lambda>f. (f, [d])) (subscribers s event) @
                             [(f1, [d]), (f2, [d])]))"
  using assms by (simp add: on_Inr emit_quiet subscribers_def)

section \<open>Geometry: intersection test and collision data\<close>

text \<open>
  Claim C2. \<open>getCollisionData\<close> reports as \<open>overlapX\<close> and \<open>overlapY\<close> the smaller of the
  two penetrations on each axis, and chooses the direction by the strict comparison
  \<open>overlapX < overlapY\<close>: when it holds the direction is \<open>left\<close> if \<open>obj1.x < obj2.x\<close> and
  \<open>right\<close> otherwise; when it does not hold, which includes the tie
  \<open>overlapX = overlapY\<close>, the direction is \<open>top\<close> if \<open>obj1.y < obj2.y\<close> and \<open>bottom\<close>
  otherwise. Ties go to the vertical axis.
\<close>

theorem getCollisionData_direction:
  "overlapX (getCollisionData obj1 obj2) =
     min (x obj1 + width obj1 - x obj2) (x obj2 + width obj2 - x obj1)
   \<and> overlapY (getCollisionData obj1 obj2) =
     min (y obj1 + height obj1 - y obj2) (y obj2 + height obj2 - y obj1)
   \<and> direction (getCollisionData obj1 obj2) =
     (if overlapX (getCollisionData obj1 obj2) < overlapY (getCollisionData obj1 obj2)
      then (if x obj1 < x obj2 then Left else Right)
      else (if y obj1 < y obj2 then Top else Bottom))
   \<and> (overlapX (getCollisionData obj1 obj2) = overlapY (getCollisionData obj1 obj2) \<longrightarrow>
        direction (getCollisionData obj1 obj2) = (if y obj1 < y obj2 then Top else Bottom))"
proof -
  define ox where "ox = min (x obj1 + width obj1 - x obj2) (x obj2 + width obj2 - x obj1)"
  define oy where "oy = min (y obj1 + height obj1 - y obj2) (y obj2 + height obj2 - y obj1)"
  have cd: "getCollisionData obj1 obj2 =
      \<lparr> overlapX = ox, overlapY = oy,
        direction = (if ox < oy then (if x obj1 < x obj2 then Left else Right)
                     else (if y obj1 < y obj2 then Top else Bottom)) \<rparr>"
    unfolding getCollisionData_def Let_def ox_def oy_def by (rule refl)
  show ?thesis unfolding cd ox_def [symmetric] oy_def [symmetric] by auto
qed

text \<open>
  Two 10 by 10 squares. Offset by (5, 5) both overlaps are 5, a tie, and the direction is
  \<open>top\<close>, or \<open>bottom\<close> with the arguments swapped; offset by (8, 5) the overlaps are 2 and
  5 and the direction is \<open>left\<close>, or \<open>right\<close> with the arguments swapped.
\<close>

theorem getCollisionData_direction_witness:
  "overlapX (getCollisionData \<lparr>x = 0, y = 0, width = 10, height = 10\<rparr>
                              \<lparr>x = 5, y = 5, width = 10, height = 10\<rparr>) = 5
   \<and> overlapY (getCollisionData \<lparr>x = 0, y = 0, width = 10, height = 10\<rparr>
                                \<lparr>x = 5, y = 5, width = 10, height = 10\<rparr>) = 5
   \<and> direction (getCollisionData \<lparr>x = 0, y = 0, width = 10, height = 10\<rparr>
                                  \<lparr>x = 5, y = 5, width = 10, height = 10\<rparr>) = Top
   \<and> overlapX (getCollisionData \<lparr>x = 0, y = 0, width = 10, height = 10\<rparr>
                                \<lparr>x = 8, y = 5, width = 10, height = 10\<rparr>) = 2
   \<and> overlapY (getCollisionData \<lparr>x = 0, y = 0, width = 10, height = 10\<rparr>
                                \<lparr>x = 8, y = 5, width = 10, height = 10\<rparr>) = 5
   \<and> direction (getCollisionData \<lparr>x = 0, y = 0, width = 10, height = 10\<rparr>
                                  \<lparr>x = 8, y = 5, width = 10, height = 10\<rparr>) = Left
   \<and> direction (getCollisionData \<lparr>x = 8, y = 5, width = 10, height = 10\<rparr>
                                  \<lparr>x = 0, y = 0, width = 10, height = 10\<rparr>) = Right
   \<and> direction (getCollisionData \<lparr>x = 5, y = 5, width = 10, height = 10\<rparr>
                                  \<lparr>x = 0, y = 0, width = 10, height = 10\<rparr>) = Bottom"
  using getCollisionData_direction
          [of "\<lparr>x = 0, y = 0, width = 10, height = 10\<rparr>" "\<lparr>x = 5, y = 5, width = 10, height = 10\<rparr>"]
        getCollisionData_direction
          [of "\<lparr>x = 0, y = 0, width = 10, height = 10\<rparr>" "\<lparr>x = 8, y = 5, width = 10, height = 10\<rparr>"]
        getCollisionData_direction
          [of "\<lparr>x = 8, y = 5, width = 10, height = 10\<rparr>" "\<lparr>x = 0, y = 0, width = 10, height = 10\<rparr>"]
        getCollisionData_direction
          [of "\<lparr>x = 5, y = 5, width = 10, height = 10\<rparr>" "\<lparr>x = 0, y = 0, width = 10, height = 10\<rparr>"]
  by simp

text \<open>
  Claim C3. \<open>isColliding\<close> is true exactly when the four strict inequalities hold, and
  two rectangles that merely touch (an edge of one lies on the opposite edge of the
  other, so that the overlap has no area) are not colliding.
\<close>

theorem isColliding_strict:
  "(isColliding a b \<longleftrightarrow>
      x a < x b + width b \<and> x a + width a > x b \<and>
      y a < y b + height b \<and> y a + height a > y b)
   \<and> (x a + width a = x b \<or> x b + width b = x a \<or>
       y a + height a = y b \<or> y b + height b = y a \<longrightarrow> \<not> isColliding a b)"
  by (auto simp add: isColliding_def)

text \<open>The spec's example: A = (0, 0, 10, 10) and B = (10, 0, 10, 10) share an edge.\<close>

theorem isColliding_strict_witness:
  "x \<lparr>x = 0, y = 0, width = 10, height = 10\<rparr> + width \<lparr>x = 0, y = 0, width = 10, height = 10\<rparr>
     = x \<lparr>x = 10, y = 0, width = 10, height = 10\<rparr>
   \<and> \<not> isColliding \<lparr>x = 0, y = 0, width = 10, height = 10\<rparr>
                     \<lparr>x = 10, y = 0, width = 10, height = 10\<rparr>"
  using isColliding_strict
          [of "\<lparr>x = 0, y = 0, width = 10, height = 10\<rparr>" "\<lparr>x = 10, y = 0, width = 10, height = 10\<rparr>"]
  by simp

text \<open>
  Claim C9. The intersection test is symmetric: \<open>isColliding(A, B)\<close> equals
  \<open>isColliding(B, A)\<close> for all rectangles.
\<close>

theorem isColliding_sym: "isColliding a b = isColliding b a"
  by (auto simp add: isColliding_def)

section \<open>Creation\<close>

text \<open>
  Claim C10. Whatever the id, the options and the element's measured size, the object
  returned by \<open>createGameObject\<close> has \<open>velocityX = 0\<close> and \<open>velocityY = 0\<close>, and it is
  this object that is appended to \<open>gameObjects\<close>: no option, \<open>autoMove\<close> included, gives
  a nonzero velocity at creation.
\<close>

theorem createGameObject_velocity:
  "velocityX (fst (createGameObject elementId opts ow oh s)) = 0
   \<and> velocityY (fst (createGameObject elementId opts ow oh s)) = 0
   \<and> gameObjects (snd (createGameObject elementId opts ow oh s)) =
       gameObjects s @ [fst (createGameObject elementId opts ow oh s)]"
  by (simp add: createGameObject_def Let_def)

section \<open>Event bus\<close>

text \<open>
  Claim C8 does not hold of the code for every event name. On a fresh engine
  \<open>this.eventListeners['toString']\<close> is the function inherited from \<open>Object.prototype\<close>:
  \<open>on\<close> takes it for an existing list, skips the initialisation and calls \<open>push\<close> on it,
  and \<open>emit\<close> takes it for the listeners and calls \<open>forEach\<close> on it. Both raise a
  TypeError; nothing is subscribed and nothing is invoked.
\<close>

theorem on_emit_inherited_name:
  "on ''toString'' (calm ''f1'') new_engine = Inl (TypeError, new_engine)
   \<and> (\<exists>t. emit ''toString'' (Opaque ''data'') new_engine = Inl (TypeError, t) \<and> invoked t = [])"
  by (simp add: on_def emit_def lookup_listeners_def new_engine_def object_prototype_keys_def)

section \<open>Static objects\<close>

text \<open>
  Claim C4. A static object is never written. Whether \<open>update\<close>, for any \<open>deltaTime\<close>,
  returns or a listener raises, the state it leaves has the object at that position
  unchanged in every field, and \<open>update\<close> returns when no \<open>hitBoundary\<close> listener raises;
  \<open>resolveCollision\<close> with the object as either argument and any collision data leaves
  it unchanged too. The number of objects and the event listeners are unchanged as
  well.
\<close>

theorem static_object_unchanged:
  fixes s :: engine
  assumes "i < length (gameObjects s)" and "isStatic (gameObjects s ! i)"
  shows "gameObjects (final (update deltaTime s)) ! i = gameObjects s ! i
         \<and> length (gameObjects (final (update deltaTime s))) = length (gameObjects s)
         \<and> eventListeners (final (update deltaTime s)) = eventListeners s
         \<and> ((\<forall>cb \<in> set (subscribers s ''hitBoundary''). quiet cb) \<longrightarrow>
              (\<exists>s'. update deltaTime s = Inr s'))
         \<and> gameObjects (resolveCollision i j d s) ! i = gameObjects s ! i
         \<and> gameObjects (resolveCollision j i d s) ! i = gameObjects s ! i
         \<and> length (gameObjects (resolveCollision i j d s)) = length (gameObjects s)
         \<and> length (gameObjects (resolveCollision j i d s)) = length (gameObjects s)
         \<and> eventListeners (resolveCollision i j d s) = eventListeners s
         \<and> eventListeners (resolveCollision j i d s) = eventListeners s"
proof -
  have all: "set [0 ..< length (gameObjects s)] \<subseteq> {..< length (gameObjects s)}" by auto
  have ret: "\<exists>s'. update deltaTime s = Inr s'"
    if "\<forall>cb \<in> set (subscribers s ''hitBoundary''). quiet cb"
    using update_returns [OF all that, of deltaTime] by (auto simp add: update_def)
  from update_keeps_static [OF assms all, of deltaTime] ret assms
  show ?thesis by (simp add: update_def resolveCollision_keeps)
qed

text \<open>
The static box A of the spec's scenario, under \<open>update\<close> and under resolution against B.
\<close>

theorem static_object_unchanged_witness:
  "0 < length (gameObjects wall_scene) \<and> isStatic (gameObjects wall_scene ! 0)
   \<and> gameObjects (final (update 16 wall_scene)) ! 0 = gameObjects wall_scene ! 0
   \<and> (\<exists>s'. update 16 wall_scene = Inr s')
   \<and> gameObjects (resolveCollision 0 1
         (getCollisionData (gameObjects wall_scene ! 0) (gameObjects wall_scene ! 1)) wall_scene) ! 0
       = gameObjects wall_scene ! 0"
proof -
  have h: "0 < length (gameObjects wall_scene)" "isStatic (gameObjects wall_scene ! 0)"
    by (simp_all add: wall_scene_def scene_defs)
  have q: "\<forall>cb \<in> set (subscribers wall_scene ''hitBoundary''). quiet cb"
    by (simp add: wall_scene_def scene_defs subscribers_def)
  from static_object_unchanged [OF h, of 16 1
      "getCollisionData (gameObjects wall_scene ! 0) (gameObjects wall_scene ! 1)"] q
  show ?thesis using h by blast
qed

text \<open>
  Claim C5, as amended. For an overlapping pair \<open>i < j\<close> of static objects,
  \<open>resolveCollision\<close> returns at once and the state \<open>checkCollisions\<close> leaves, returned or
  raised, has both objects unchanged. When none of the \<open>onCollision\<close> callbacks and
  \<open>collision\<close> listeners raises, \<open>checkCollisions\<close> returns, having published the
  \<open>collision\<close> event of the pair to every subscriber and having invoked
  \<open>obj1.onCollision\<close> and \<open>obj2.onCollision\<close>, where set, with the other object and the
  collision data.
\<close>

theorem checkCollisions_static_pair:
  fixes s :: engine
  assumes ij: "i < j" and jn: "j < length (gameObjects s)"
    and si: "isStatic (gameObjects s ! i)" and sj: "isStatic (gameObjects s ! j)"
    and hit: "isColliding (gameObjects s ! i) (gameObjects s ! j)"
  shows "resolveCollision i j d s = s
    \<and> gameObjects (final (checkCollisions s)) ! i = gameObjects s ! i
    \<and> gameObjects (final (checkCollisions s)) ! j = gameObjects s ! j
    \<and> (collision_callbacks_quiet s \<longrightarrow>
        (\<exists>s'. checkCollisions s = Inr s' \<and>
           (\<exists>ps. published s' = published s @ ps \<and>
              (''collision'', CollisionEvent i j (getCollisionData (gameObjects s ! i) (gameObjects s ! j)))
                \<in> set ps) \<and>
           (\<exists>qs. invoked s' = invoked s @ qs \<and>
              (\<forall>cb. onCollision (gameObjects s ! i) = Some cb \<longrightarrow>
                 (cb, [ObjRef j, CollisionData (getCollisionData (gameObjects s ! i) (gameObjects s ! j))])
                   \<in> set qs) \<and>
              (\<forall>cb. onCollision (gameObjects s ! j) = Some cb \<longrightarrow>
                 (cb, [ObjRef i, CollisionData (getCollisionData (gameObjects s ! i) (gameObjects s ! j))])
                   \<in> set qs) \<and>
              (\<forall>cb \<in> set (subscribers s ''collision'').
                 (cb, [CollisionEvent i j (getCollisionData (gameObjects s ! i) (gameObjects s ! j))])
                   \<in> set qs))))"
proof (intro conjI impI)
  show "resolveCollision i j d s = s" using si sj by (simp add: resolveCollision_def)
next
  have "i < length (gameObjects s)" using ij jn by simp
  from checkCollisions_keeps_static [OF this si]
  show "gameObjects (final (checkCollisions s)) ! i = gameObjects s ! i" by simp
next
  from checkCollisions_keeps_static [OF jn sj]
  show "gameObjects (final (checkCollisions s)) ! j = gameObjects s ! j" by simp
next
  assume quiet_s: "collision_callbacks_quiet s"
  define n where "n = length (gameObjects s)"
  define oi where "oi = gameObjects s ! i"
  define oj where "oj = gameObjects s ! j"
  define cd where "cd = getCollisionData oi oj"
  define ev where "ev = (''collision'', CollisionEvent i j cd)"
  define cs where "cs =
     (case onCollision oi of Some cb \<Rightarrow> [(cb, [ObjRef j, CollisionData cd])] | None \<Rightarrow> []) @
     (case onCollision oj of Some cb \<Rightarrow> [(cb, [ObjRef i, CollisionData cd])] | None \<Rightarrow> []) @
     map (\<lambda>cb. (cb, [CollisionEvent i j cd])) (subscribers s ''collision'')"
  define F where "F = (\<lambda>t :: engine. length (gameObjects t) = n \<and>
     gameObjects t ! i = oi \<and> gameObjects t ! j = oj \<and>
     map onCollision (gameObjects t) = map onCollision (gameObjects s) \<and>
     eventListeners t = eventListeners s)"
  define G where "G = (\<lambda>E C (t :: engine). \<exists>ps qs. published t = published s @ ps \<and>
     invoked t = invoked s @ qs \<and> E \<subseteq> set ps \<and> C \<subseteq> set qs)"
  define P where "P = (\<lambda>t. F t \<and> G {} {} t)"
  define Q where "Q = (\<lambda>t. F t \<and> G {ev} (set cs) t)"
  have i_lt: "i < n" and j_lt: "j < n" using ij jn by (simp_all add: n_def)
  have st: "isStatic oi" "isStatic oj" using si sj by (simp_all add: oi_def oj_def)
  have quiet_t: "collision_callbacks_quiet t" if "F t" for t
    using that quiet_s collision_callbacks_quiet_cong [of t s] unfolding F_def by simp
  have step: "\<exists>t'. check_pair a b t = Inr t' \<and> F t' \<and> G E C t'"
    if "F t" "G E C t" "a < n" "b < n" for a b E C and t :: engine
  proof -
    have ab: "a < length (gameObjects t)" "b < length (gameObjects t)"
      using that unfolding F_def by simp_all
    from check_pair_step [OF ab quiet_t [OF \<open>F t\<close>]] obtain t' ps' qs' where t':
      "check_pair a b t = Inr t'" "length (gameObjects t') = length (gameObjects t)"
      "\<forall>k < length (gameObjects t). isStatic (gameObjects t ! k) \<longrightarrow>
          gameObjects t' ! k = gameObjects t ! k"
      "map onCollision (gameObjects t') = map onCollision (gameObjects t)"
      "eventListeners t' = eventListeners t"
      "published t' = published t @ ps'" "invoked t' = invoked t @ qs'"
      by blast
    from \<open>G E C t\<close> obtain ps qs where g: "published t = published s @ ps"
      "invoked t = invoked s @ qs" "E \<subseteq> set ps" "C \<subseteq> set qs"
      unfolding G_def by blast
    have "F t'" using \<open>F t\<close> t'(2-5) i_lt j_lt st unfolding F_def by auto
    moreover have "G E C t'"
      unfolding G_def
      by (rule exI [of _ "ps @ ps'"], rule exI [of _ "qs @ qs'"]) (use g t' in auto)
    ultimately show ?thesis using t'(1) by blast
  qed
  have stepP: "\<exists>t'. check_pair a b t = Inr t' \<and> P t'" if "P t" "a < n" "b < n" for a b t
    using step [of t "{}" "{}" a b] that unfolding P_def by blast
  have stepQ: "\<exists>t'. check_pair a b t = Inr t' \<and> Q t'" if "Q t" "a < n" "b < n" for a b t
    using step [of t "{ev}" "set cs" a b] that unfolding Q_def by blast
  have hitPQ: "\<exists>t'. check_pair i j t = Inr t' \<and> Q t'" if "P t" for t
  proof -
    from that have f: "F t" and g: "G {} {} t" unfolding P_def by auto
    from f have o: "gameObjects t ! i = gameObjects s ! i" "gameObjects t ! j = gameObjects s ! j"
      and len: "length (gameObjects t) = n" and el: "eventListeners t = eventListeners s"
      and oc: "map onCollision (gameObjects t) = map onCollision (gameObjects s)"
      unfolding F_def oi_def oj_def by auto
    from g obtain ps qs where g': "published t = published s @ ps" "invoked t = invoked s @ qs"
      unfolding G_def by blast
    have it: "i < length (gameObjects t)" "j < length (gameObjects t)"
      using len i_lt j_lt by simp_all
    have sub: "subscribers t ''collision'' = subscribers s ''collision''"
      using el by (simp add: subscribers_def)
    have r: "resolveCollision i j d' t = t" for d'
      using o si sj by (simp add: resolveCollision_def)
    have c: "check_pair i j t = Inr (t\<lparr>published := published t @ [ev], invoked := invoked t @ cs\<rparr>)"
      unfolding ev_def cs_def cd_def oi_def oj_def
      using check_pair_quiet [OF it quiet_t [OF f], unfolded o r sub, OF hit]
      by simp
    have "F (t\<lparr>published := published t @ [ev], invoked := invoked t @ cs\<rparr>)"
      using f unfolding F_def by simp
    moreover have "G {ev} (set cs) (t\<lparr>published := published t @ [ev], invoked := invoked t @ cs\<rparr>)"
      unfolding G_def
      by (rule exI [of _ "ps @ [ev]"], rule exI [of _ "qs @ cs"]) (use g' in auto)
    ultimately show ?thesis using c unfolding Q_def by simp
  qed
  have lenP: "length (gameObjects t) = n" if "P t" for t using that unfolding P_def F_def by simp
  have lenQ: "length (gameObjects t) = n" if "Q t" for t using that unfolding Q_def F_def by simp
  have rowP: "\<exists>t'. check_row a t = Inr t' \<and> P t'" if "P t" "a < n" for a t
    unfolding check_row_def lenP [OF that(1)]
    by (rule forEach_invariant [where P = P]) (use that stepP in auto)
  have rowQ: "\<exists>t'. check_row a t = Inr t' \<and> Q t'" if "Q t" "a < n" for a t
    unfolding check_row_def lenQ [OF that(1)]
    by (rule forEach_invariant [where P = Q]) (use that stepQ in auto)
  have rowPQ: "\<exists>t'. check_row i t = Inr t' \<and> Q t'" if "P t" for t
  proof -
    have "[Suc i ..< n] = [Suc i ..< j] @ j # [Suc j ..< n]"
      using ij j_lt by (intro upt_split_from) auto
    moreover have "\<exists>t'. forEach (check_pair i) ([Suc i ..< j] @ j # [Suc j ..< n]) t = Inr t' \<and> Q t'"
      by (rule forEach_establish [where P = P and Q = Q])
         (use that stepP stepQ hitPQ i_lt j_lt in auto)
    ultimately show ?thesis by (simp add: check_row_def lenP [OF that])
  qed
  have "P s" unfolding P_def F_def G_def by (simp add: n_def oi_def oj_def)
  have "\<exists>t'. forEach check_row ([0 ..< i] @ i # [Suc i ..< n]) s = Inr t' \<and> Q t'"
    by (rule forEach_establish [where P = P and Q = Q])
       (use \<open>P s\<close> rowP rowQ rowPQ i_lt in auto)
  then obtain s' where s': "checkCollisions s = Inr s'" "Q s'"
    using upt_split [OF i_lt] by (auto simp add: checkCollisions_def n_def)
  from s'(2) obtain ps qs where fin:
    "published s' = published s @ ps" "invoked s' = invoked s @ qs" "ev \<in> set ps" "set cs \<subseteq> set qs"
    unfolding Q_def F_def G_def by auto
  have c1: "(cb, [ObjRef j, CollisionData cd]) \<in> set qs" if "onCollision oi = Some cb" for cb
    using fin(4) that by (auto simp add: cs_def)
  have c2: "(cb, [ObjRef i, CollisionData cd]) \<in> set qs" if "onCollision oj = Some cb" for cb
    using fin(4) that by (auto simp add: cs_def)
  have c3: "(cb, [CollisionEvent i j cd]) \<in> set qs" if "cb \<in> set (subscribers s ''collision'')" for cb
    using fin(4) that by (auto simp add: cs_def)
  show "\<exists>s'. checkCollisions s = Inr s' \<and>
           (\<exists>ps. published s' = published s @ ps \<and>
              (''collision'', CollisionEvent i j (getCollisionData (gameObjects s ! i) (gameObjects s ! j)))
                \<in> set ps) \<and>
           (\<exists>qs. invoked s' = invoked s @ qs \<and>
              (\<forall>cb. onCollision (gameObjects s ! i) = Some cb \<longrightarrow>
                 (cb, [ObjRef j, CollisionData (getCollisionData (gameObjects s ! i) (gameObjects s ! j))])
                   \<in> set qs) \<and>
              (\<forall>cb. onCollision (gameObjects s ! j) = Some cb \<longrightarrow>
                 (cb, [ObjRef i, CollisionData (getCollisionData (gameObjects s ! i) (gameObjects s ! j))])
                   \<in> set qs) \<and>
              (\<forall>cb \<in> set (subscribers s ''collision'').
                 (cb, [CollisionEvent i j (getCollisionData (gameObjects s ! i) (gameObjects s ! j))])
                   \<in> set qs))"
    using s'(1) fin c1 c2 c3 unfolding ev_def cd_def oi_def oj_def by blast
qed

text \<open>
Two overlapping static boxes whose callbacks \<open>a\<close> and \<open>b\<close> return.
\<close>

theorem checkCollisions_static_pair_witness:
  "(0::nat) < 1 \<and> 1 < length (gameObjects (static_pair (calm ''a'') (calm ''b'')))
   \<and> isStatic (gameObjects (static_pair (calm ''a'') (calm ''b'')) ! 0)
   \<and> isStatic (gameObjects (static_pair (calm ''a'') (calm ''b'')) ! 1)
   \<and> isColliding (gameObjects (static_pair (calm ''a'') (calm ''b'')) ! 0)
                  (gameObjects (static_pair (calm ''a'') (calm ''b'')) ! 1)
   \<and> collision_callbacks_quiet (static_pair (calm ''a'') (calm ''b''))
   \<and> gameObjects (final (checkCollisions (static_pair (calm ''a'') (calm ''b'')))) ! 0
       = gameObjects (static_pair (calm ''a'') (calm ''b'')) ! 0
   \<and> (\<exists>s'. checkCollisions (static_pair (calm ''a'') (calm ''b'')) = Inr s' \<and>
         (\<exists>ps. published s' = published (static_pair (calm ''a'') (calm ''b'')) @ ps \<and>
            (''collision'', CollisionEvent 0 1
               (getCollisionData (gameObjects (static_pair (calm ''a'') (calm ''b'')) ! 0)
                                 (gameObjects (static_pair (calm ''a'') (calm ''b'')) ! 1))) \<in> set ps) \<and>
         (\<exists>qs. invoked s' = invoked (static_pair (calm ''a'') (calm ''b'')) @ qs \<and>
            (calm ''a'', [ObjRef 1, CollisionData
               (getCollisionData (gameObjects (static_pair (calm ''a'') (calm ''b'')) ! 0)
                                 (gameObjects (static_pair (calm ''a'') (calm ''b'')) ! 1))]) \<in> set qs \<and>
            (calm ''b'', [ObjRef 0, CollisionData
               (getCollisionData (gameObjects (static_pair (calm ''a'') (calm ''b'')) ! 0)
                                 (gameObjects (static_pair (calm ''a'') (calm ''b'')) ! 1))]) \<in> set qs))"
proof -
  let ?s = "static_pair (calm ''a'') (calm ''b'')"
  have h: "(0::nat) < 1" "1 < length (gameObjects ?s)"
    "isStatic (gameObjects ?s ! 0)" "isStatic (gameObjects ?s ! 1)"
    "isColliding (gameObjects ?s ! 0) (gameObjects ?s ! 1)"
    by (simp_all add: static_pair_def scene_defs isColliding_def)
  have q: "collision_callbacks_quiet ?s"
    by (auto simp add: collision_callbacks_quiet_def static_pair_def scene_defs subscribers_def
          quiet_def calm_def)
  have cb: "onCollision (gameObjects ?s ! 0) = Some (calm ''a'')"
    "onCollision (gameObjects ?s ! 1) = Some (calm ''b'')"
    by (simp_all add: static_pair_def scene_defs)
  from checkCollisions_static_pair [OF h] q cb h show ?thesis by blast
qed

text \<open>
  The claim as stated fails when a callback raises: with the first box's \<open>onCollision\<close>
  throwing, \<open>checkCollisions\<close> ends there; the second box's callback is not invoked and
  no \<open>collision\<close> event is published.
\<close>

theorem checkCollisions_raising_counterexample:
  "isStatic (gameObjects (static_pair boom (calm ''b'')) ! 0)
   \<and> isStatic (gameObjects (static_pair boom (calm ''b'')) ! 1)
   \<and> isColliding (gameObjects (static_pair boom (calm ''b'')) ! 0)
                  (gameObjects (static_pair boom (calm ''b'')) ! 1)
   \<and> onCollision (gameObjects (static_pair boom (calm ''b'')) ! 1) = Some (calm ''b'')
   \<and> (\<exists>t. checkCollisions (static_pair boom (calm ''b'')) = Inl (Thrown boom, t) \<and>
          published t = [] \<and>
          invoked t = [(boom, [ObjRef 1, CollisionData
             (getCollisionData (gameObjects (static_pair boom (calm ''b'')) ! 0)
                               (gameObjects (static_pair boom (calm ''b'')) ! 1))])])"
  by (simp add: static_pair_def scene_defs boom_def calm_def isColliding_def checkCollisions_def
        check_row_def check_pair_def resolveCollision_def call_onCollision_def invoke_def
        Let_def upt_rec)

section \<open>Physics integration\<close>

text \<open>
  Claim C6, as amended. When no \<open>hitBoundary\<close> listener raises, \<open>update\<close> returns, and
  what it publishes is exactly one \<open>hitBoundary\<close> event for each non-static object, in
  object order, whatever the positions, each delivered to every subscriber in
  subscription order; nothing is published for a static object.
\<close>

theorem update_hitBoundary:
  assumes "\<forall>cb \<in> set (subscribers s ''hitBoundary''). quiet cb"
  shows "\<exists>s'. update deltaTime s = Inr s' \<and>
     published s' = published s @
       map (\<lambda>i. (''hitBoundary'', ObjRef i))
         (filter (\<lambda>i. \<not> isStatic (gameObjects s ! i)) [0 ..< length (gameObjects s)]) \<and>
     invoked s' = invoked s @
       concat (map (\<lambda>i. map (\<lambda>cb. (cb, [ObjRef i])) (subscribers s ''hitBoundary''))
         (filter (\<lambda>i. \<not> isStatic (gameObjects s ! i)) [0 ..< length (gameObjects s)]))"
proof -
  have "set [0 ..< length (gameObjects s)] \<subseteq> {..< length (gameObjects s)}" by auto
  from update_returns [OF this assms, of deltaTime] show ?thesis by (auto simp add: update_def)
qed

text \<open>
  A static box and two dynamic ones, with two listeners that return: each dynamic box
  gets one event, delivered to both listeners.
\<close>

theorem update_hitBoundary_witness:
  "subscribers (listening_scene [calm ''l1'', calm ''l2'']) ''hitBoundary'' = [calm ''l1'', calm ''l2'']
   \<and> quiet (calm ''l1'') \<and> quiet (calm ''l2'')
   \<and> (\<exists>s'. update 16 (listening_scene [calm ''l1'', calm ''l2'']) = Inr s' \<and>
         published s' = [(''hitBoundary'', ObjRef 1), (''hitBoundary'', ObjRef 2)] \<and>
         invoked s' = [(calm ''l1'', [ObjRef 1]), (calm ''l2'', [ObjRef 1]),
                       (calm ''l1'', [ObjRef 2]), (calm ''l2'', [ObjRef 2])])"
proof -
  have q: "\<forall>cb \<in> set (subscribers (listening_scene [calm ''l1'', calm ''l2'']) ''hitBoundary''). quiet cb"
    by (simp add: listening_scene_def subscribers_def quiet_def calm_def)
  have c: "quiet (calm ''l1'')" "quiet (calm ''l2'')" by (simp_all add: quiet_def calm_def)
  from update_hitBoundary [OF q, of 16] c show ?thesis
    by (simp add: listening_scene_def scene_defs subscribers_def numeral_2_eq_2)
qed

text \<open>
  The claim as stated fails when a listener raises: in the same scene with a throwing
  listener, \<open>update\<close> ends at the first dynamic box, and the second dynamic box gets no
  event.
\<close>

theorem update_hitBoundary_raising_counterexample:
  "\<not> isStatic (gameObjects (listening_scene [boom]) ! 2)
   \<and> (\<exists>t. update 16 (listening_scene [boom]) = Inl (Thrown boom, t) \<and>
          published t = [(''hitBoundary'', ObjRef 1)])"
  by (simp add: listening_scene_def scene_defs boom_def update_def update_obj_def modify_def
        emit_def lookup_listeners_def invoke_def Let_def upt_rec)

text \<open>
  Claim C7, as amended. Let an object be non-static with \<open>requireGround\<close> set, and not
  grounded in the state in which \<open>update\<close> reaches it. Then \<open>update\<close> with
  \<open>deltaTime = 500\<close> leaves its \<open>velocityY\<close> at exactly 500 more than the velocity after
  the \<open>autoMove\<close> overwrite, which is \<open>autoMove.y\<close> when \<open>autoMove\<close> is set and the previous
  \<open>velocityY\<close> otherwise; the position is integrated with the increased velocity. This
  holds of the state \<open>update\<close> leaves, returned or raised, and \<open>update\<close> reaches every
  object and returns when no \<open>hitBoundary\<close> listener raises.
\<close>

theorem update_gravity:
  fixes s :: engine
  assumes "i < length (gameObjects s)"
  shows "(\<forall>si. update_upto 500 i s = Inr si \<and>
            \<not> isStatic (gameObjects s ! i) \<and> requireGround (gameObjects s ! i) \<and>
            \<not> isOnGround si i \<longrightarrow>
              velocityY (gameObjects (final (update 500 s)) ! i) =
                (case autoMove (gameObjects s ! i) of
                   Some a \<Rightarrow> snd a | None \<Rightarrow> velocityY (gameObjects s ! i)) + 500
              \<and> y (gameObjects (final (update 500 s)) ! i) = y (gameObjects s ! i) +
                  velocityY (gameObjects (final (update 500 s)) ! i) * (500 / 1000))
       \<and> ((\<forall>cb \<in> set (subscribers s ''hitBoundary''). quiet cb) \<longrightarrow>
            (\<exists>si s'. update_upto 500 i s = Inr si \<and> update 500 s = Inr s'))"
proof (intro conjI allI impI)
  fix si
  assume h: "update_upto 500 i s = Inr si \<and>
            \<not> isStatic (gameObjects s ! i) \<and> requireGround (gameObjects s ! i) \<and>
            \<not> isOnGround si i"
  then have si: "update_upto 500 i s = Inr si" by simp
  note r = update_object_i [OF assms si]
  from h r(2,3)
  show "velocityY (gameObjects (final (update 500 s)) ! i) =
                (case autoMove (gameObjects s ! i) of
                   Some a \<Rightarrow> snd a | None \<Rightarrow> velocityY (gameObjects s ! i)) + 500"
    by (simp add: step_obj_def Let_def split: option.splits)
  from h r(2,3)
  show "y (gameObjects (final (update 500 s)) ! i) = y (gameObjects s ! i) +
                  velocityY (gameObjects (final (update 500 s)) ! i) * (500 / 1000)"
    by (simp add: step_obj_def Let_def split: option.splits)
next
  assume q: "\<forall>cb \<in> set (subscribers s ''hitBoundary''). quiet cb"
  have pre: "set [0 ..< i] \<subseteq> {..< length (gameObjects s)}" using assms by auto
  have all: "set [0 ..< length (gameObjects s)] \<subseteq> {..< length (gameObjects s)}" by auto
  from update_returns [OF pre q, of 500] update_returns [OF all q, of 500]
  show "\<exists>si s'. update_upto 500 i s = Inr si \<and> update 500 s = Inr s'"
    by (auto simp add: update_def update_upto_def)
qed

text \<open>
A single falling box at rest: its velocity becomes 500 and it moves down by 250.
\<close>

theorem update_gravity_witness:
  "0 < length (gameObjects falling_scene) \<and> update_upto 500 0 falling_scene = Inr falling_scene
   \<and> \<not> isStatic (gameObjects falling_scene ! 0) \<and> requireGround (gameObjects falling_scene ! 0)
   \<and> \<not> isOnGround falling_scene 0
   \<and> velocityY (gameObjects (final (update 500 falling_scene)) ! 0) = 500
   \<and> y (gameObjects (final (update 500 falling_scene)) ! 0) = 250
   \<and> (\<exists>s'. update 500 falling_scene = Inr s')"
proof -
  have h: "0 < length (gameObjects falling_scene)" by (simp add: falling_scene_def scene_defs)
  have u: "update_upto 500 0 falling_scene = Inr falling_scene" by (simp add: update_upto_def)
  have g: "\<not> isStatic (gameObjects falling_scene ! 0)" "requireGround (gameObjects falling_scene ! 0)"
    "\<not> isOnGround falling_scene 0" "autoMove (gameObjects falling_scene ! 0) = None"
    "velocityY (gameObjects falling_scene ! 0) = 0" "y (gameObjects falling_scene ! 0) = 0"
    by (simp_all add: falling_scene_def scene_defs isOnGround_def Let_def)
  have q: "\<forall>cb \<in> set (subscribers falling_scene ''hitBoundary''). quiet cb"
    by (simp add: falling_scene_def scene_defs subscribers_def)
  from update_gravity [OF h] u g q
  have "velocityY (gameObjects (final (update 500 falling_scene)) ! 0) = 500
     \<and> y (gameObjects (final (update 500 falling_scene)) ! 0) = 250
     \<and> (\<exists>s'. update 500 falling_scene = Inr s')"
    by auto
  then show ?thesis using h u g by blast
qed

text \<open>
  The claim as stated, an increase of \<open>velocityY\<close> by exactly 500 over the call, fails
  for an object with \<open>autoMove = {x: 0, y: 100}\<close> at rest: its velocity goes from 0 to
  600.
\<close>

theorem update_gravity_automove_counterexample:
  "\<not> isStatic (gameObjects automove_scene ! 0) \<and> requireGround (gameObjects automove_scene ! 0)
   \<and> \<not> isOnGround automove_scene 0 \<and> velocityY (gameObjects automove_scene ! 0) = 0
   \<and> (\<exists>s'. update 500 automove_scene = Inr s' \<and> velocityY (gameObjects s' ! 0) = 600)"
  by (simp add: automove_scene_def scene_defs isOnGround_def Let_def update_def update_obj_def
        modify_def emit_def lookup_listeners_def object_prototype_keys_def)

section \<open>Overlap resolution\<close>

text \<open>
  Claim C1 does not hold of the code. In the scene below the static box A spans 0 to 100
  horizontally, the dynamic box B spans 1 to 11, and both span 0 to 100 vertically. The
  pair intersects, the direction is \<open>left\<close> with \<open>overlapX = 11\<close>, and resolution moves B
  to \<open>x = 12\<close>; the overlap recomputed on the chosen axis is 22, not at most 0.
\<close>

theorem resolveCollision_nested:
  "isColliding (gameObjects nested_scene ! 0) (gameObjects nested_scene ! 1)
   \<and> \<not> isStatic (gameObjects nested_scene ! 1)
   \<and> direction (getCollisionData (gameObjects nested_scene ! 0) (gameObjects nested_scene ! 1)) = Left
   \<and> overlapX (getCollisionData (gameObjects nested_scene ! 0) (gameObjects nested_scene ! 1)) = 11
   \<and> x (gameObjects (resolveCollision 0 1
           (getCollisionData (gameObjects nested_scene ! 0) (gameObjects nested_scene ! 1))
           nested_scene) ! 0) = 0
   \<and> x (gameObjects (resolveCollision 0 1
           (getCollisionData (gameObjects nested_scene ! 0) (gameObjects nested_scene ! 1))
           nested_scene) ! 1) = 12
   \<and> overlapX (getCollisionData
        (gameObjects (resolveCollision 0 1
           (getCollisionData (gameObjects nested_scene ! 0) (gameObjects nested_scene ! 1))
           nested_scene) ! 0)
        (gameObjects (resolveCollision 0 1
           (getCollisionData (gameObjects nested_scene ! 0) (gameObjects nested_scene ! 1))
           nested_scene) ! 1)) = 22"
  by (simp add: nested_scene_def scene_defs isColliding_def getCollisionData_def Let_def
        resolveCollision_def resolve_position_def resolve_velocity_def unless_static_def modify_def)

end
